theory Spec2Isabelle
  imports Complex_Main
begin

section \<open>JavaScript values used by the page script\<close>

text \<open>
  The script \<^verbatim>\<open>script.js\<close> keeps the slider's index in the variable \<^verbatim>\<open>curSlide\<close>, a
  JavaScript Number, that is a double. \<open>JInt k\<close> is the double whose value is the integer
  \<open>k\<close>; \<open>JDouble q\<close> is any other finite double, given by its value, a rational; then
  there are the two infinities and \<^verbatim>\<open>NaN\<close>. The script applies to a Number only \<^verbatim>\<open>===\<close>,
  \<^verbatim>\<open>+\<close>, \<^verbatim>\<open>-\<close>, \<^verbatim>\<open>*\<close> and the conversion to a string, none of which tells the negative zero
  from zero here, so both are \<open>JInt 0\<close>.
\<close>

datatype jsnum = JInt int | JNaN | JDouble rat | JPosInf | JNegInf

datatype js_error = TypeError

text \<open>
  An event handler either returns or throws. A thrown exception does not undo the
  assignments made before it, so both outcomes carry the state the page is left in.
\<close>

datatype 's outcome = Returned 's | Threw js_error 's

fun state_of :: "'s outcome \<Rightarrow> 's" where
  "state_of (Returned s) = s"
| "state_of (Threw e s) = s"

fun returned :: "'s outcome \<Rightarrow> bool" where
  "returned (Returned s) = True"
| "returned (Threw e s) = False"

subsection \<open>Rounding to a double\<close>

text \<open>
  The double nearest to a rational, ties to the even significand: 53 bits of significand,
  the least exponent \<open>- 1074\<close>, and infinity when the rounded value reaches \<open>2 ^ 1024\<close>, that
  is when its binary logarithm reaches 1024. \<open>ilog2 a\<close> and \<open>ilog10 a\<close> are the integer
  parts of the logarithms of a positive rational, found from the numbers of digits of its
  numerator and denominator.
\<close>

definition pow2 :: "int \<Rightarrow> rat" where
  "pow2 p = (if 0 \<le> p then of_int (2 ^ nat p) else 1 / of_int (2 ^ nat (- p)))"

definition pow10 :: "int \<Rightarrow> rat" where
  "pow10 p = (if 0 \<le> p then of_int (10 ^ nat p) else 1 / of_int (10 ^ nat (- p)))"

function digit_count :: "int \<Rightarrow> int \<Rightarrow> int" where
  "digit_count b n = (if n \<le> 0 \<or> b < 2 then 0 else 1 + digit_count b (n div b))"
  by pat_completeness auto
termination
  by (relation "measure (\<lambda>(b, n). nat n)") (auto simp: int_div_less_self)

declare digit_count.simps [simp del]

definition ilog2 :: "rat \<Rightarrow> int" where
  "ilog2 a =
     (let (n, d) = quotient_of a;
          e = digit_count 2 n - digit_count 2 d
      in if pow2 e \<le> a then e else e - 1)"

definition ilog10 :: "rat \<Rightarrow> int" where
  "ilog10 a =
     (let (n, d) = quotient_of a;
          e = digit_count 10 n - digit_count 10 d
      in if pow10 e \<le> a then e else e - 1)"

definition round_half_even :: "rat \<Rightarrow> int" where
  "round_half_even r =
     (let f = \<lfloor>r\<rfloor>; d = r - of_int f
      in if d < 1 / 2 then f else if 1 / 2 < d then f + 1 else if even f then f else f + 1)"

text \<open>
  A double is written \<open>JInt k\<close> when it is an integer of magnitude at most \<open>2 ^ 46\<close>. On
  two such Numbers the operations below are computed on the integers, without rounding;
  JavaScript agrees while the results stay within \<open>2 ^ 53\<close>, and from integers up to
  \<open>2 ^ 46\<close> the slider's \<open>100 * (i - k)\<close>, with a position \<open>i\<close> below \<open>2 ^ 32\<close>, does.
  Every other operation rounds.
\<close>

definition safe_integer :: int where
  "safe_integer = 2 ^ 46"

definition norm_double :: "rat \<Rightarrow> jsnum" where
  "norm_double v =
     (if of_int \<lfloor>v\<rfloor> = v \<and> \<bar>\<lfloor>v\<rfloor>\<bar> \<le> safe_integer then JInt \<lfloor>v\<rfloor> else JDouble v)"

definition round_double :: "rat \<Rightarrow> jsnum" where
  "round_double q =
     (if q = 0 then JInt 0
      else
        (let a = \<bar>q\<bar>;
             p = max (ilog2 a - 52) (- 1074);
             v = of_int (round_half_even (a / pow2 p)) * pow2 p
         in if 1024 \<le> ilog2 v then (if q < 0 then JNegInf else JPosInf)
            else norm_double (if q < 0 then - v else v)))"

text \<open>The value of a Number, and the Number of an exact result.\<close>

datatype ext = Fin rat | PInf | NInf | Undef

fun js_value :: "jsnum \<Rightarrow> ext" where
  "js_value (JInt k) = Fin (of_int k)"
| "js_value (JDouble q) = Fin q"
| "js_value JPosInf = PInf"
| "js_value JNegInf = NInf"
| "js_value JNaN = Undef"

fun to_number :: "ext \<Rightarrow> jsnum" where
  "to_number (Fin q) = round_double q"
| "to_number PInf = JPosInf"
| "to_number NInf = JNegInf"
| "to_number Undef = JNaN"

fun ext_neg :: "ext \<Rightarrow> ext" where
  "ext_neg (Fin q) = Fin (- q)"
| "ext_neg PInf = NInf"
| "ext_neg NInf = PInf"
| "ext_neg Undef = Undef"

fun ext_add :: "ext \<Rightarrow> ext \<Rightarrow> ext" where
  "ext_add (Fin a) (Fin b) = Fin (a + b)"
| "ext_add Undef _ = Undef"
| "ext_add _ Undef = Undef"
| "ext_add PInf NInf = Undef"
| "ext_add NInf PInf = Undef"
| "ext_add PInf _ = PInf"
| "ext_add _ PInf = PInf"
| "ext_add NInf _ = NInf"
| "ext_add _ NInf = NInf"

fun ext_sign :: "ext \<Rightarrow> int" where
  "ext_sign (Fin a) = (if a < 0 then - 1 else if 0 < a then 1 else 0)"
| "ext_sign PInf = 1"
| "ext_sign NInf = - 1"
| "ext_sign Undef = 0"

fun ext_mul :: "ext \<Rightarrow> ext \<Rightarrow> ext" where
  "ext_mul (Fin a) (Fin b) = Fin (a * b)"
| "ext_mul Undef _ = Undef"
| "ext_mul _ Undef = Undef"
| "ext_mul x y =
     (if ext_sign x * ext_sign y = 0 then Undef
      else if 0 < ext_sign x * ext_sign y then PInf else NInf)"

text \<open>
  Strict equality \<^verbatim>\<open>===\<close>, \<^verbatim>\<open>+\<close>, \<^verbatim>\<open>-\<close> and \<^verbatim>\<open>*\<close>: \<^verbatim>\<open>NaN\<close> equals nothing and absorbs; the
  exact result of an operation is rounded.
\<close>

fun js_eq :: "jsnum \<Rightarrow> jsnum \<Rightarrow> bool" where
  "js_eq (JInt a) (JInt b) = (a = b)"
| "js_eq JNaN _ = False"
| "js_eq _ JNaN = False"
| "js_eq x y = (js_value x = js_value y)"

fun js_plus :: "jsnum \<Rightarrow> jsnum \<Rightarrow> jsnum" where
  "js_plus (JInt a) (JInt b) = JInt (a + b)"
| "js_plus x y = to_number (ext_add (js_value x) (js_value y))"

fun js_minus :: "jsnum \<Rightarrow> jsnum \<Rightarrow> jsnum" where
  "js_minus (JInt a) (JInt b) = JInt (a - b)"
| "js_minus x y = to_number (ext_add (js_value x) (ext_neg (js_value y)))"

fun js_times :: "jsnum \<Rightarrow> jsnum \<Rightarrow> jsnum" where
  "js_times (JInt a) (JInt b) = JInt (a * b)"
| "js_times x y = to_number (ext_mul (js_value x) (js_value y))"

subsection \<open>Numbers in template literals\<close>

definition digit_char :: "nat \<Rightarrow> char" where
  "digit_char d = char_of (48 + d)"

fun show_nat :: "nat \<Rightarrow> string" where
  "show_nat n = (if n < 10 then [digit_char n] else show_nat (n div 10) @ [digit_char (n mod 10)])"

declare show_nat.simps [simp del]

text \<open>
  The string of a positive double \<open>a\<close> that is not written \<open>JInt\<close>: the digits \<open>s\<close>, \<open>k\<close> of
  them and as few as possible, and the exponent \<open>n\<close> with \<open>s * 10 ^ (n - k)\<close> rounding to
  \<open>a\<close>; of two such \<open>s\<close> the nearer to \<open>a\<close>. With \<open>k\<close> digits only the two neighbours of
  \<open>a / 10 ^ (n - k)\<close> can do, and 17 digits always do. The digits are laid out as
  \<^verbatim>\<open>Number.prototype.toString\<close> does: plainly up to 21 integer digits and down to six
  zeros after the point, with an exponent otherwise.
\<close>

definition represents :: "rat \<Rightarrow> rat \<Rightarrow> bool" where
  "represents v a = (js_value (round_double v) = Fin a)"

definition digit_candidates :: "rat \<Rightarrow> int \<Rightarrow> (int \<times> int) list" where
  "digit_candidates a k =
     (let n = ilog10 a + 1;
          lo = \<lfloor>a / pow10 (n - k)\<rfloor>;
          hi = lo + 1
      in [(lo, n), if hi < 10 ^ nat k then (hi, n) else (10 ^ nat (k - 1), n + 1)])"

definition candidate_value :: "int \<Rightarrow> int \<times> int \<Rightarrow> rat" where
  "candidate_value k c = of_int (fst c) * pow10 (snd c - k)"

definition closest_digits :: "rat \<Rightarrow> int \<Rightarrow> (int \<times> int) option" where
  "closest_digits a k =
     (case filter (\<lambda>c. represents (candidate_value k c) a) (digit_candidates a k) of
        [] \<Rightarrow> None
      | [c] \<Rightarrow> Some c
      | c # d # _ \<Rightarrow>
          (let x = \<bar>candidate_value k c - a\<bar>; y = \<bar>candidate_value k d - a\<bar>
           in if x < y then Some c else if y < x then Some d
              else if even (fst c) then Some c else Some d))"

fun shortest_digits :: "rat \<Rightarrow> int list \<Rightarrow> (int \<times> int \<times> int) option" where
  "shortest_digits a [] = None"
| "shortest_digits a (k # ks) =
     (case closest_digits a k of
        Some (s, n) \<Rightarrow> Some (s, n, k)
      | None \<Rightarrow> shortest_digits a ks)"

definition format_digits :: "int \<times> int \<times> int \<Rightarrow> string" where
  "format_digits snk =
     (case snk of (s, n, k) \<Rightarrow>
        (let ds = show_nat (nat s)
         in if k \<le> n \<and> n \<le> 21 then ds @ replicate (nat (n - k)) CHR ''0''
            else if 0 < n \<and> n \<le> 21 then take (nat n) ds @ ''.'' @ drop (nat n) ds
            else if - 6 < n \<and> n \<le> 0 then ''0.'' @ replicate (nat (- n)) CHR ''0'' @ ds
            else
              (let e = n - 1;
                   es = (if e < 0 then ''-'' else ''+'') @ show_nat (nat \<bar>e\<bar>)
               in if k = 1 then ds @ ''e'' @ es
                  else hd ds # ''.'' @ tl ds @ ''e'' @ es)))"

definition positive_str :: "rat \<Rightarrow> string" where
  "positive_str a =
     (case shortest_digits a [1, 2, 3, 4, 5, 6, 7, 8, 9, 10, 11, 12, 13, 14, 15, 16, 17] of
        Some snk \<Rightarrow> format_digits snk
      | None \<Rightarrow> format_digits (\<lfloor>a / pow10 (ilog10 a + 1 - 17)\<rfloor>, ilog10 a + 1, 17))"

text \<open>\<^verbatim>\<open>`${slide}`\<close>: the decimal numeral of an integer, \<^verbatim>\<open>NaN\<close> for \<^verbatim>\<open>NaN\<close>, and so on.\<close>

fun num_str :: "jsnum \<Rightarrow> string" where
  "num_str (JInt k) = (if k < 0 then CHR ''-'' # show_nat (nat (- k)) else show_nat (nat k))"
| "num_str JNaN = ''NaN''"
| "num_str (JDouble q) = (if q < 0 then CHR ''-'' # positive_str (- q) else positive_str q)"
| "num_str JPosInf = ''Infinity''"
| "num_str JNegInf = ''-Infinity''"

subsection \<open>\<^verbatim>\<open>Number(e.target.dataset.slide)\<close>\<close>

text \<open>
  Strings are byte strings, in UTF-8. \<open>white_space\<close> lists the characters that the
  conversion of a string to a Number strips from both ends: tab, line feed, vertical tab,
  form feed, carriage return, space, U+00A0, U+1680, U+2000 to U+200A, U+2028, U+2029,
  U+202F, U+205F, U+3000 and U+FEFF.
\<close>

definition is_digit :: "char \<Rightarrow> bool" where
  "is_digit c = (48 \<le> (of_char c :: nat) \<and> (of_char c :: nat) \<le> 57)"

definition digits_val :: "string \<Rightarrow> nat" where
  "digits_val ds = foldl (\<lambda>a c. 10 * a + ((of_char c :: nat) - 48)) 0 ds"

definition white_space :: "string list" where
  "white_space =
    [[CHR 0x09], [CHR 0x0A], [CHR 0x0B], [CHR 0x0C], [CHR 0x0D], [CHR 0x20],
     [CHR 0xC2, CHR 0xA0], [CHR 0xE1, CHR 0x9A, CHR 0x80], [CHR 0xE2, CHR 0x80, CHR 0x80],
     [CHR 0xE2, CHR 0x80, CHR 0x81], [CHR 0xE2, CHR 0x80, CHR 0x82],
     [CHR 0xE2, CHR 0x80, CHR 0x83], [CHR 0xE2, CHR 0x80, CHR 0x84],
     [CHR 0xE2, CHR 0x80, CHR 0x85], [CHR 0xE2, CHR 0x80, CHR 0x86],
     [CHR 0xE2, CHR 0x80, CHR 0x87], [CHR 0xE2, CHR 0x80, CHR 0x88],
     [CHR 0xE2, CHR 0x80, CHR 0x89], [CHR 0xE2, CHR 0x80, CHR 0x8A],
     [CHR 0xE2, CHR 0x80, CHR 0xA8], [CHR 0xE2, CHR 0x80, CHR 0xA9],
     [CHR 0xE2, CHR 0x80, CHR 0xAF], [CHR 0xE2, CHR 0x81, CHR 0x9F],
     [CHR 0xE3, CHR 0x80, CHR 0x80], [CHR 0xEF, CHR 0xBB, CHR 0xBF]]"

function strip_left :: "string list \<Rightarrow> string \<Rightarrow> string" where
  "strip_left ws s =
     (case find (\<lambda>w. w \<noteq> [] \<and> take (length w) s = w) ws of
        None \<Rightarrow> s
      | Some w \<Rightarrow> strip_left ws (drop (length w) s))"
  by pat_completeness auto
termination
proof (relation "measure (\<lambda>(ws, s). length s)")
  show "wf (measure (\<lambda>(ws, s). length s))" by simp
next
  fix ws :: "string list" and s w :: string
  assume "find (\<lambda>w. w \<noteq> [] \<and> take (length w) s = w) ws = Some w"
  then have "w \<noteq> [] \<and> take (length w) s = w" by (auto simp: find_Some_iff)
  then have "0 < length w" "length w \<le> length s"
    by (auto simp: min_def dest: arg_cong [where f = length] split: if_splits)
  then show "((ws, drop (length w) s), (ws, s)) \<in> measure (\<lambda>(ws, s). length s)"
    by (cases w) auto
qed

declare strip_left.simps [simp del]

definition strip :: "string \<Rightarrow> string" where
  "strip s = rev (strip_left (map rev white_space) (rev (strip_left white_space s)))"

text \<open>
  The numeric literals of a string: \<^verbatim>\<open>0x\<close>, \<^verbatim>\<open>0o\<close> or \<^verbatim>\<open>0b\<close> and digits of that radix,
  without a sign; or, after an optional sign, \<^verbatim>\<open>Infinity\<close> or decimal digits with an
  optional point and an optional exponent, with a digit before or after the point. The
  value of a literal is exact; \<open>None\<close> is a string that is no literal.
\<close>

definition hex_val :: "char \<Rightarrow> nat option" where
  "hex_val c =
     (let n = (of_char c :: nat)
      in if 48 \<le> n \<and> n \<le> 57 then Some (n - 48)
         else if 65 \<le> n \<and> n \<le> 70 then Some (n - 55)
         else if 97 \<le> n \<and> n \<le> 102 then Some (n - 87)
         else None)"

definition radix_val :: "nat \<Rightarrow> string \<Rightarrow> nat option" where
  "radix_val b ds =
     (if ds \<noteq> [] \<and> list_all (\<lambda>c. case hex_val c of None \<Rightarrow> False | Some d \<Rightarrow> d < b) ds
      then Some (foldl (\<lambda>a c. b * a + the (hex_val c)) 0 ds)
      else None)"

definition unsigned_int :: "string \<Rightarrow> int option" where
  "unsigned_int ds =
     (if ds \<noteq> [] \<and> list_all is_digit ds then Some (int (digits_val ds)) else None)"

definition signed_int :: "string \<Rightarrow> int option" where
  "signed_int r =
     (case r of
        [] \<Rightarrow> None
      | c # r' \<Rightarrow>
          if c = CHR ''+'' then unsigned_int r'
          else if c = CHR ''-'' then map_option uminus (unsigned_int r')
          else unsigned_int r)"

definition exponent_part :: "string \<Rightarrow> int option" where
  "exponent_part r =
     (case r of
        [] \<Rightarrow> Some 0
      | c # r' \<Rightarrow> if c = CHR ''e'' \<or> c = CHR ''E'' then signed_int r' else None)"

definition unsigned_decimal :: "string \<Rightarrow> ext option" where
  "unsigned_decimal t =
     (if t = ''Infinity'' then Some PInf
      else
        (let d1 = takeWhile is_digit t;
             r1 = dropWhile is_digit t;
             dot = (r1 \<noteq> [] \<and> hd r1 = CHR ''.'');
             d2 = (if dot then takeWhile is_digit (tl r1) else []);
             r2 = (if dot then dropWhile is_digit (tl r1) else r1)
         in if d1 = [] \<and> d2 = [] then None
            else map_option
              (\<lambda>e. Fin (of_nat (digits_val (d1 @ d2)) * pow10 (e - int (length d2))))
              (exponent_part r2)))"

definition numeric_literal :: "string \<Rightarrow> ext option" where
  "numeric_literal t =
     (case t of
        c # x # r \<Rightarrow>
          if c = CHR ''0'' \<and> (x = CHR ''x'' \<or> x = CHR ''X'')
          then map_option (\<lambda>n. Fin (of_nat n)) (radix_val 16 r)
          else if c = CHR ''0'' \<and> (x = CHR ''o'' \<or> x = CHR ''O'')
          then map_option (\<lambda>n. Fin (of_nat n)) (radix_val 8 r)
          else if c = CHR ''0'' \<and> (x = CHR ''b'' \<or> x = CHR ''B'')
          then map_option (\<lambda>n. Fin (of_nat n)) (radix_val 2 r)
          else if c = CHR ''+'' then unsigned_decimal (x # r)
          else if c = CHR ''-'' then map_option ext_neg (unsigned_decimal (x # r))
          else unsigned_decimal t
      | _ \<Rightarrow> unsigned_decimal t)"

text \<open>
  \<open>js_Number\<close> is the conversion \<^verbatim>\<open>Number(x)\<close> for \<open>x\<close> a \<^verbatim>\<open>dataset\<close> entry. \<open>None\<close> is
  \<^verbatim>\<open>undefined\<close> (the attribute is missing), which converts to \<^verbatim>\<open>NaN\<close>. Of a string the white
  space is stripped; the empty string is \<open>0\<close>; a numeric literal is the double nearest to
  its value; every other string is \<^verbatim>\<open>NaN\<close>.
\<close>

definition js_Number :: "string option \<Rightarrow> jsnum" where
  "js_Number x =
     (case x of
        None \<Rightarrow> JNaN
      | Some s \<Rightarrow>
          (let t = strip s
           in if t = [] then JInt 0
              else (case numeric_literal t of None \<Rightarrow> JNaN | Some v \<Rightarrow> to_number v)))"

section \<open>The slider\<close>

text \<open>
  The state of \<^verbatim>\<open>slider()\<close>: the \<^verbatim>\<open>style.transform\<close> of every \<^verbatim>\<open>.slide\<close> element, the
  \<^verbatim>\<open>.dots__dot\<close> elements of the document in document order, and the closure variable
  \<^verbatim>\<open>curSlide\<close>. \<^verbatim>\<open>maxSlide\<close> is \<^verbatim>\<open>slides.length\<close>, fixed when the slider is set up.
\<close>

datatype transform = NoTransform | TranslateXPct int | TranslateXNum rat

record dot =
  data_slide :: "string option"
  dot_active :: bool

record slider =
  slides :: "transform list"
  dots :: "dot list"
  curSlide :: jsnum

definition maxSlide :: "slider \<Rightarrow> jsnum" where
  "maxSlide s = JInt (int (length (slides s)))"

text \<open>
  \<^verbatim>\<open>createDots\<close> appends one button per slide to the dot container, with
  \<^verbatim>\<open>data-slide="${i}"\<close> and without the active class.
\<close>

definition new_dot :: "nat \<Rightarrow> dot" where
  "new_dot i = \<lparr>data_slide = Some (show_nat i), dot_active = False\<rparr>"

definition createDots :: "slider \<Rightarrow> slider" where
  "createDots s = s\<lparr>dots := dots s @ map new_dot [0..<length (slides s)]\<rparr>"

text \<open>\<^verbatim>\<open>document.querySelector\<close>: the position of the first matching element, if any.\<close>

fun query_first :: "('a \<Rightarrow> bool) \<Rightarrow> 'a list \<Rightarrow> nat option" where
  "query_first P [] = None"
| "query_first P (x # xs) = (if P x then Some 0 else map_option Suc (query_first P xs))"

text \<open>
  \<^verbatim>\<open>activateDot(slide)\<close> first removes the active class from every dot, then adds it to
  the first dot whose \<^verbatim>\<open>data-slide\<close> attribute is the string \<^verbatim>\<open>`${slide}`\<close>. When no dot
  matches, \<^verbatim>\<open>querySelector\<close> returns \<^verbatim>\<open>null\<close> and reading \<^verbatim>\<open>.classList\<close> throws a
  \<^verbatim>\<open>TypeError\<close>, after the removal.
\<close>

definition activateDot :: "jsnum \<Rightarrow> slider \<Rightarrow> slider outcome" where
  "activateDot slide s =
     (let ds = map (\<lambda>d. d\<lparr>dot_active := False\<rparr>) (dots s)
      in case query_first (\<lambda>d. data_slide d = Some (num_str slide)) ds of
           None \<Rightarrow> Threw TypeError (s\<lparr>dots := ds\<rparr>)
         | Some j \<Rightarrow> Returned (s\<lparr>dots := ds[j := (ds ! j)\<lparr>dot_active := True\<rparr>]\<rparr>))"

text \<open>
  \<^verbatim>\<open>goToSlide(slide)\<close> assigns \<^verbatim>\<open>translateX(${100 * (i - slide)}%)\<close> to the slide at
  position \<open>i\<close>. A finite percentage is kept, \<open>TranslateXPct\<close> when it is an integer
  and \<open>TranslateXNum\<close> otherwise. For \<^verbatim>\<open>NaN\<close> and the infinities the assigned text,
  such as \<^verbatim>\<open>translateX(NaN%)\<close>, is no valid declaration and the style keeps its value.
\<close>

definition slide_transform :: "jsnum \<Rightarrow> nat \<Rightarrow> transform \<Rightarrow> transform" where
  "slide_transform slide i t =
     (case js_times (JInt 100) (js_minus (JInt (int i)) slide) of
        JInt p \<Rightarrow> TranslateXPct p
      | JDouble q \<Rightarrow> if of_int \<lfloor>q\<rfloor> = q then TranslateXPct \<lfloor>q\<rfloor> else TranslateXNum q
      | _ \<Rightarrow> t)"

definition goToSlide :: "jsnum \<Rightarrow> slider \<Rightarrow> slider" where
  "goToSlide slide s =
     s\<lparr>slides := map (\<lambda>i. slide_transform slide i (slides s ! i)) [0..<length (slides s)]\<rparr>"

definition nextSlide :: "slider \<Rightarrow> slider outcome" where
  "nextSlide s =
     (let c = (if js_eq (curSlide s) (js_minus (maxSlide s) (JInt 1)) then JInt 0
               else js_plus (curSlide s) (JInt 1));
          s1 = s\<lparr>curSlide := c\<rparr>
      in activateDot c (goToSlide c s1))"

definition prevSlide :: "slider \<Rightarrow> slider outcome" where
  "prevSlide s =
     (let c = (if js_eq (curSlide s) (JInt 0) then js_minus (maxSlide s) (JInt 1)
               else js_minus (curSlide s) (JInt 1));
          s1 = s\<lparr>curSlide := c\<rparr>
      in activateDot c (goToSlide c s1))"

text \<open>
  \<^verbatim>\<open>slider()\<close> up to the end of \<^verbatim>\<open>init()\<close>: \<^verbatim>\<open>curSlide = 0\<close>, then \<^verbatim>\<open>goToSlide(0)\<close>,
  \<^verbatim>\<open>createDots()\<close>, \<^verbatim>\<open>activateDot(0)\<close>. The arguments are the slides of the page and
  the \<^verbatim>\<open>.dots__dot\<close> elements the page's markup already has (none, on the page as
  designed), which are taken to stand in the dot container or before it: the created
  dots are appended at the end of the container.
\<close>

definition init :: "transform list \<Rightarrow> dot list \<Rightarrow> slider outcome" where
  "init page_slides page_dots =
     activateDot (JInt 0)
       (createDots (goToSlide (JInt 0) \<lparr>slides = page_slides, dots = page_dots, curSlide = JInt 0\<rparr>))"

text \<open>
  The click listener of the dot container. The event target is either a
  \<^verbatim>\<open>.dots__dot\<close> element, given by its position among the dots, or another element of the
  container. A position that names no element is no event: \<open>None\<close>.
\<close>

datatype click_target = Dot nat | NotADot

definition dot_click :: "click_target \<Rightarrow> slider \<Rightarrow> slider outcome option" where
  "dot_click tgt s =
     (case tgt of
        NotADot \<Rightarrow> Some (Returned s)
      | Dot j \<Rightarrow>
          if length (dots s) \<le> j then None
          else
            (let v = js_Number (data_slide (dots s ! j));
                 s1 = s\<lparr>curSlide := v\<rparr>
             in Some (activateDot v (goToSlide v s1))))"

text \<open>The right and left buttons and the arrow keys call \<^verbatim>\<open>nextSlide\<close> and \<^verbatim>\<open>prevSlide\<close>.\<close>

datatype control = Next | Prev

fun control_call :: "control \<Rightarrow> slider \<Rightarrow> slider outcome" where
  "control_call Next s = nextSlide s"
| "control_call Prev s = prevSlide s"

text \<open>
  A sequence of calls, one event after the other. An exception ends the event it is
  thrown in, not the page: the next event runs on the state the page was left in.
\<close>

fun calls :: "control list \<Rightarrow> slider \<Rightarrow> slider outcome list" where
  "calls [] s = []"
| "calls (c # cs) s = control_call c s # calls cs (state_of (control_call c s))"

fun after_calls :: "control list \<Rightarrow> slider \<Rightarrow> slider" where
  "after_calls [] s = s"
| "after_calls (c # cs) s = after_calls cs (state_of (control_call c s))"

section \<open>Properties of the slider's states\<close>

text \<open>
  \<open>dots_cover\<close>: every slide position has a dot carrying its number. \<open>dots_created\<close>: the
  dots are exactly the ones \<^verbatim>\<open>createDots\<close> makes, in slide order (a page without
  \<^verbatim>\<open>.dots__dot\<close> elements of its own).
\<close>

definition dots_cover :: "slider \<Rightarrow> bool" where
  "dots_cover s =
     list_all (\<lambda>k. list_ex (\<lambda>d. data_slide d = Some (show_nat k)) (dots s))
       [0..<length (slides s)]"

definition dots_created :: "slider \<Rightarrow> bool" where
  "dots_created s =
     (map data_slide (dots s) = map (\<lambda>i. Some (show_nat i)) [0..<length (slides s)])"

definition index_in_range :: "slider \<Rightarrow> bool" where
  "index_in_range s =
     (case curSlide s of JInt k \<Rightarrow> 0 \<le> k \<and> k < int (length (slides s)) | _ \<Rightarrow> False)"

text \<open>The specification's formulas for the two wrapping steps, and the net displacement.\<close>

definition spec_next :: "int \<Rightarrow> int \<Rightarrow> int" where
  "spec_next n i = (i + 1) mod n"

definition spec_previous :: "int \<Rightarrow> int \<Rightarrow> int" where
  "spec_previous n i = (i - 1 + n) mod n"

fun net_displacement :: "control list \<Rightarrow> int" where
  "net_displacement [] = 0"
| "net_displacement (Next # cs) = net_displacement cs + 1"
| "net_displacement (Prev # cs) = net_displacement cs - 1"

section \<open>Viewport observers\<close>

text \<open>
  Elements are handles. An \<open>entry\<close> is an \<^verbatim>\<open>IntersectionObserverEntry\<close> as far as the
  callbacks read it: \<^verbatim>\<open>entry.target\<close> and \<^verbatim>\<open>entry.isIntersecting\<close>.
\<close>

type_synonym elem = nat

record entry =
  target :: elem
  isIntersecting :: bool

record observer_options =
  root :: "elem option"
  threshold :: rat
  rootMargin :: "string option"

text \<open>
  The options the two observers are constructed with, the thresholds \<^verbatim>\<open>0.15\<close> and \<^verbatim>\<open>0\<close> as
  rationals. \<^verbatim>\<open>sectionObserver\<close> is given no \<^verbatim>\<open>rootMargin\<close>; the observer then uses its
  default, \<^verbatim>\<open>0px\<close>.
\<close>

definition sectionObserver_options :: observer_options where
  "sectionObserver_options = \<lparr>root = None, threshold = 15 / 100, rootMargin = None\<rparr>"

definition imgObserver_options :: observer_options where
  "imgObserver_options = \<lparr>root = None, threshold = 0, rootMargin = Some ''200px''\<rparr>"

definition effective_margin :: "observer_options \<Rightarrow> string" where
  "effective_margin opts = (case rootMargin opts of None \<Rightarrow> ''0px'' | Some m \<Rightarrow> m)"

text \<open>\<^verbatim>\<open>observer.observe(t)\<close> and \<^verbatim>\<open>observer.unobserve(t)\<close> on the observer's list of targets.\<close>

definition observe :: "elem \<Rightarrow> elem list \<Rightarrow> elem list" where
  "observe t obs = (if t \<in> set obs then obs else obs @ [t])"

definition unobserve :: "elem \<Rightarrow> elem list \<Rightarrow> elem list" where
  "unobserve t obs = removeAll t obs"

text \<open>
  The observer invokes its callback with the entries queued since the last invocation:
  a list that is not empty, all of whose targets it is observing.
\<close>

definition deliverable :: "entry list \<Rightarrow> elem list \<Rightarrow> bool" where
  "deliverable entries obs = (entries \<noteq> [] \<and> list_all (\<lambda>e. target e \<in> set obs) entries)"

subsection \<open>Revealing sections\<close>

text \<open>
  The sections that carry the class \<^verbatim>\<open>section--hidden\<close>, the targets of \<^verbatim>\<open>sectionObserver\<close>,
  and the trace of the removals of the class that \<^verbatim>\<open>revealSection\<close> has made, oldest first.
\<close>

record sections =
  section_hidden :: "elem set"
  section_observed :: "elem list"
  reveal_log :: "elem list"

text \<open>
  \<^verbatim>\<open>const [entry] = entries\<close> takes the first entry. On an empty list \<^verbatim>\<open>entry\<close> is
  \<^verbatim>\<open>undefined\<close> and \<^verbatim>\<open>entry.isIntersecting\<close> throws.
\<close>

definition revealSection :: "entry list \<Rightarrow> sections \<Rightarrow> sections outcome" where
  "revealSection entries s =
     (case entries of
        [] \<Rightarrow> Threw TypeError s
      | entry # _ \<Rightarrow>
          if \<not> isIntersecting entry then Returned s
          else Returned (s\<lparr>section_hidden := section_hidden s - {target entry},
                           reveal_log := reveal_log s @ [target entry],
                           section_observed := unobserve (target entry) (section_observed s)\<rparr>))"

text \<open>\<^verbatim>\<open>allSections.forEach\<close>: observe the section, then add the class.\<close>

fun arm_sections :: "elem list \<Rightarrow> sections \<Rightarrow> sections" where
  "arm_sections [] s = s"
| "arm_sections (x # xs) s =
     arm_sections xs
       (s\<lparr>section_observed := observe x (section_observed s),
          section_hidden := insert x (section_hidden s)\<rparr>)"

definition sections_at_load :: "elem set \<Rightarrow> sections" where
  "sections_at_load hidden = \<lparr>section_hidden = hidden, section_observed = [], reveal_log = []\<rparr>"

text \<open>
  A run of callback invocations. \<open>None\<close>: some batch is not one the observer can deliver
  in the state reached.
\<close>

fun section_notifications :: "entry list list \<Rightarrow> sections \<Rightarrow> sections option" where
  "section_notifications [] s = Some s"
| "section_notifications (b # bs) s =
     (if deliverable b (section_observed s)
      then section_notifications bs (state_of (revealSection b s))
      else None)"

text \<open>
  The entry for a section of which the fraction \<open>ratio\<close> is visible, following the
  specification's description of the notifier (the host's, not part of the script): the
  threshold is the least visible fraction that counts as intersecting.
\<close>

definition section_entry :: "elem \<Rightarrow> rat \<Rightarrow> entry" where
  "section_entry t ratio =
     \<lparr>target = t, isIntersecting = (threshold sectionObserver_options \<le> ratio)\<rparr>"

subsection \<open>Lazy images\<close>

text \<open>
  Per image: the \<^verbatim>\<open>src\<close> attribute, \<^verbatim>\<open>dataset.src\<close> (\<open>None\<close> when \<^verbatim>\<open>data-src\<close> is absent)
  and the number of \<^verbatim>\<open>load\<close> listeners \<^verbatim>\<open>loadImg\<close> has added (each
  call adds a new function, so none is merged with an earlier one); the images that carry
  the class \<^verbatim>\<open>lazy-img\<close>; and the targets of \<^verbatim>\<open>imgObserver\<close>.
\<close>

record images =
  img_src :: "elem \<Rightarrow> string"
  img_data_src :: "elem \<Rightarrow> string option"
  img_lazy :: "elem set"
  load_listeners :: "elem \<Rightarrow> nat"
  img_observed :: "elem list"

text \<open>Assigning \<^verbatim>\<open>undefined\<close> to \<^verbatim>\<open>src\<close> stores the text \<^verbatim>\<open>undefined\<close>.\<close>

definition loadImg :: "entry list \<Rightarrow> images \<Rightarrow> images outcome" where
  "loadImg entries s =
     (case entries of
        [] \<Rightarrow> Threw TypeError s
      | entry # _ \<Rightarrow>
          if \<not> isIntersecting entry then Returned s
          else Returned
            (s\<lparr>img_src := (img_src s)(target entry :=
                   (case img_data_src s (target entry) of None \<Rightarrow> ''undefined'' | Some u \<Rightarrow> u)),
               load_listeners := (load_listeners s)(target entry :=
                   Suc (load_listeners s (target entry))),
               img_observed := unobserve (target entry) (img_observed s)\<rparr>))"

fun image_notifications :: "entry list list \<Rightarrow> images \<Rightarrow> images option" where
  "image_notifications [] s = Some s"
| "image_notifications (b # bs) s =
     (if deliverable b (img_observed s)
      then image_notifications bs (state_of (loadImg b s))
      else None)"

text \<open>The \<^verbatim>\<open>load\<close> event of an image runs the listeners added to it.\<close>

definition img_load_event :: "elem \<Rightarrow> images \<Rightarrow> images" where
  "img_load_event t s =
     (if 0 < load_listeners s t then s\<lparr>img_lazy := img_lazy s - {t}\<rparr> else s)"

text \<open>\<^verbatim>\<open>imgTargets.forEach(img => imgObserver.observe(img))\<close>\<close>

fun arm_images :: "elem list \<Rightarrow> images \<Rightarrow> images" where
  "arm_images [] s = s"
| "arm_images (x # xs) s = arm_images xs (s\<lparr>img_observed := observe x (img_observed s)\<rparr>)"

subsection \<open>Settled elements\<close>

text \<open>
  What holds of the elements an observer has dealt with: a section is in the trace of
  removals at most once and is no longer a target once it is there; an image has at
  most one \<^verbatim>\<open>load\<close> listener and none while it is a target.
\<close>

definition settled_sections :: "sections \<Rightarrow> bool" where
  "settled_sections s \<longleftrightarrow>
     distinct (reveal_log s) \<and> set (reveal_log s) \<inter> set (section_observed s) = {}"

definition settled_image :: "images \<Rightarrow> elem \<Rightarrow> bool" where
  "settled_image s t \<longleftrightarrow>
     load_listeners s t \<le> 1 \<and> (t \<in> set (img_observed s) \<longrightarrow> load_listeners s t = 0)"

section \<open>The booking form\<close>

text \<open>
  What the submit listener reads and writes: the form's fields and their defaults, the
  \<^verbatim>\<open>hidden\<close> class of the modal and of the overlay, whether \<^verbatim>\<open>window.gtag\<close> is a function,
  and the traces of the calls of \<^verbatim>\<open>gtag\<close>, of \<^verbatim>\<open>alert\<close> and of \<^verbatim>\<open>fetch\<close>.
  Strings are byte strings, in UTF-8.
\<close>

type_synonym fields = "(string \<times> string) list"

record booking =
  form_values :: fields
  form_defaults :: fields
  modal_hidden :: bool
  overlay_hidden :: bool
  gtag_defined :: bool
  gtag_calls :: "(string \<times> string \<times> fields) list"
  alerts :: "string list"
  posts :: "(string \<times> fields) list"

datatype fetch_result = Response bool | Rejected

definition FORMSPREE_URL :: string where
  "FORMSPREE_URL = ''https://formspree.io/f/mqedlrnk''"

definition thanks_message :: string where
  "thanks_message =
     ''Thanks! Your booking request has been sent. I'' @ [CHR 0xE2, CHR 0x80, CHR 0x99]
       @ ''ll reply shortly.''"

definition failure_message :: string where
  "failure_message = CHR ''S'' # ''orry, something went wrong. Please try again.''"

definition network_message :: string where
  "network_message = ''Network error. Please try again.''"

definition lead_event :: "string \<times> string \<times> fields" where
  "lead_event =
     (''event'', ''generate_lead'',
      [(''event_category'', ''engagement''), (''event_label'', ''booking_form'')])"

definition closeModal :: "booking \<Rightarrow> booking" where
  "closeModal s = s\<lparr>modal_hidden := True, overlay_hidden := True\<rparr>"

text \<open>
  The listener up to \<^verbatim>\<open>await fetch(...)\<close>: the form data are collected and posted.
\<close>

definition submit_request :: "booking \<Rightarrow> booking" where
  "submit_request s = s\<lparr>posts := posts s @ [(FORMSPREE_URL, form_values s)]\<rparr>"

text \<open>
  The listener after the \<^verbatim>\<open>await\<close>: \<open>Response ok\<close> is a response with that \<^verbatim>\<open>res.ok\<close>,
  \<open>Rejected\<close> a rejected promise, caught by \<^verbatim>\<open>catch\<close>. The calls of the success branch
  (\<^verbatim>\<open>gtag\<close>, \<^verbatim>\<open>reset\<close>, \<^verbatim>\<open>closeModal\<close>, \<^verbatim>\<open>alert\<close>) are taken to return normally.
\<close>

definition submit_response :: "fetch_result \<Rightarrow> booking \<Rightarrow> booking" where
  "submit_response r s =
     (case r of
        Response ok \<Rightarrow>
          if ok then
            (let s1 = (if gtag_defined s then s\<lparr>gtag_calls := gtag_calls s @ [lead_event]\<rparr> else s);
                 s2 = s1\<lparr>form_values := form_defaults s1\<rparr>;
                 s3 = closeModal s2
             in s3\<lparr>alerts := alerts s3 @ [thanks_message]\<rparr>)
          else s\<lparr>alerts := alerts s @ [failure_message]\<rparr>
      | Rejected \<Rightarrow> s\<lparr>alerts := alerts s @ [network_message]\<rparr>)"

definition booking_submit :: "fetch_result \<Rightarrow> booking \<Rightarrow> booking" where
  "booking_submit r s = submit_response r (submit_request s)"

section \<open>Example pages\<close>

definition three_slides :: slider where
  "three_slides = state_of (init [NoTransform, NoTransform, NoTransform] [])"

definition three_slides_second :: slider where
  "three_slides_second = state_of (nextSlide three_slides)"



definition unlabelled_dot :: dot where
  "unlabelled_dot = \<lparr>data_slide = None, dot_active = False\<rparr>"

definition four_slides_unlabelled :: slider where
  "four_slides_unlabelled =
     state_of (init [NoTransform, NoTransform, NoTransform, NoTransform] [unlabelled_dot])"

definition two_sections :: sections where
  "two_sections = arm_sections [0, 1] (sections_at_load {})"

definition two_images :: images where
  "two_images =
     arm_images [0, 1]
       \<lparr>img_src = (\<lambda>_. ''small.jpg''),
        img_data_src = (\<lambda>t. Some (if t = 0 then ''large-0.jpg'' else ''large-1.jpg'')),
        img_lazy = {0, 1},
        load_listeners = (\<lambda>_. 0),
        img_observed = []\<rparr>"

definition open_booking :: booking where
  "open_booking =
     \<lparr>form_values = [(''name'', ''Ada''), (''email'', ''ada@example.org'')],
      form_defaults = [(''name'', []), (''email'', [])],
      modal_hidden = False,
      overlay_hidden = False,
      gtag_defined = True,
      gtag_calls = [],
      alerts = [],
      posts = []\<rparr>"

section \<open>Numerals and element queries\<close>

text \<open>
  The numeral of a natural number is read back by \<open>digits_val\<close>, so different numbers
  have different numerals: a dot made by \<^verbatim>\<open>createDots\<close> is found by its position only.
\<close>

lemma digit_char_val: "d < 10 \<Longrightarrow> (of_char (digit_char d) :: nat) - 48 = d"
  by (simp add: digit_char_def)

lemma digits_val_snoc: "digits_val (ds @ [c]) = 10 * digits_val ds + ((of_char c :: nat) - 48)"
  by (simp add: digits_val_def)

lemma digits_val_show_nat: "digits_val (show_nat n) = n"
proof (induction n rule: show_nat.induct)
  case (1 n)
  show ?case
  proof (cases "n < 10")
    case True
    then show ?thesis by (subst show_nat.simps) (simp add: digits_val_def digit_char_val)
  next
    case False
    then have "digits_val (show_nat n) = 10 * digits_val (show_nat (n div 10)) + n mod 10"
      by (subst show_nat.simps) (simp add: digits_val_snoc digit_char_val)
    with False "1" show ?thesis by simp
  qed
qed

lemma show_nat_inj: "show_nat a = show_nat b \<Longrightarrow> a = b"
  by (metis digits_val_show_nat)














lemma query_first_None: "query_first P xs = None \<longleftrightarrow> (\<forall>x \<in> set xs. \<not> P x)"
  by (induction xs) auto

lemma query_first_Some:
  "query_first P xs = Some j \<Longrightarrow> j < length xs \<and> P (xs ! j) \<and> (\<forall>i < j. \<not> P (xs ! i))"
proof (induction xs arbitrary: j)
  case Nil
  then show ?case by simp
next
  case (Cons x xs)
  show ?case
  proof (cases "P x")
    case True
    with Cons.prems show ?thesis by simp
  next
    case False
    with Cons.prems obtain j' where j': "query_first P xs = Some j'" "j = Suc j'"
      by auto
    from Cons.IH [OF j'(1)] False j'(2) show ?thesis
      by (auto simp: less_Suc_eq_0_disj)
  qed
qed

lemma query_first_map: "query_first P (map f xs) = query_first (\<lambda>x. P (f x)) xs"
  by (induction xs) auto


section \<open>What \<^verbatim>\<open>activateDot\<close> and \<^verbatim>\<open>goToSlide\<close> change\<close>

lemma activateDot_found:
  assumes "query_first (\<lambda>d. data_slide d = Some (num_str v)) (dots s) = Some j"
  shows "activateDot v s =
     Returned (s\<lparr>dots := (map (\<lambda>d. d\<lparr>dot_active := False\<rparr>) (dots s))
                   [j := (dots s ! j)\<lparr>dot_active := True\<rparr>]\<rparr>)"
proof -
  from query_first_Some [OF assms] have "j < length (dots s)" by simp
  with assms show ?thesis
    by (simp add: activateDot_def Let_def query_first_map)
qed

lemma activateDot_missing:
  assumes "query_first (\<lambda>d. data_slide d = Some (num_str v)) (dots s) = None"
  shows "activateDot v s = Threw TypeError (s\<lparr>dots := map (\<lambda>d. d\<lparr>dot_active := False\<rparr>) (dots s)\<rparr>)"
  using assms by (simp add: activateDot_def Let_def query_first_map)


lemma activateDot_frame:
  "slides (state_of (activateDot v s)) = slides s"
  "curSlide (state_of (activateDot v s)) = curSlide s"
  "map data_slide (dots (state_of (activateDot v s))) = map data_slide (dots s)"
proof -
  show "slides (state_of (activateDot v s)) = slides s"
    by (simp add: activateDot_def Let_def split: option.splits)
  show "curSlide (state_of (activateDot v s)) = curSlide s"
    by (simp add: activateDot_def Let_def split: option.splits)
  show "map data_slide (dots (state_of (activateDot v s))) = map data_slide (dots s)"
  proof (cases "query_first (\<lambda>d. data_slide d = Some (num_str v)) (dots s)")
    case None
    then show ?thesis by (simp add: activateDot_missing comp_def)
  next
    case (Some j)
    from query_first_Some [OF Some] have "j < length (dots s)" by simp
    then show ?thesis
      by (simp add: activateDot_found [OF Some] map_update comp_def list_update_same_conv)
  qed
qed


lemma goToSlide_frame:
  "dots (goToSlide v s) = dots s"
  "curSlide (goToSlide v s) = curSlide s"
  "length (slides (goToSlide v s)) = length (slides s)"
  by (simp_all add: goToSlide_def)

lemma goToSlide_int:
  "slides (goToSlide (JInt k) s) =
     map (\<lambda>p. TranslateXPct (100 * (int p - k))) [0..<length (slides s)]"
  by (simp add: goToSlide_def slide_transform_def)

lemma dots_cover_iff:
  "dots_cover s \<longleftrightarrow>
     (\<forall>k < length (slides s). Some (show_nat k) \<in> set (map data_slide (dots s)))"
  by (force simp: dots_cover_def list_all_iff list_ex_iff image_iff)

lemma dots_cover_cong:
  "map data_slide (dots t) = map data_slide (dots s) \<Longrightarrow> length (slides t) = length (slides s)
     \<Longrightarrow> dots_cover t = dots_cover s"
  by (simp add: dots_cover_iff)

lemma dots_created_cong:
  "map data_slide (dots t) = map data_slide (dots s) \<Longrightarrow> length (slides t) = length (slides s)
     \<Longrightarrow> dots_created t = dots_created s"
  by (simp add: dots_created_def)

lemma dots_created_cover: "dots_created s \<Longrightarrow> dots_cover s"
  by (simp add: dots_cover_iff dots_created_def)

lemma dots_created_nth:
  assumes "dots_created s"
  shows "length (dots s) = length (slides s)"
    and "j < length (slides s) \<Longrightarrow> data_slide (dots s ! j) = Some (show_nat j)"
proof -
  from assms have eq: "map data_slide (dots s) = map (\<lambda>i. Some (show_nat i)) [0..<length (slides s)]"
    by (simp add: dots_created_def)
  from arg_cong [OF eq, of length] show len: "length (dots s) = length (slides s)" by simp
  show "data_slide (dots s ! j) = Some (show_nat j)" if "j < length (slides s)"
    using arg_cong [OF eq, of "\<lambda>xs. xs ! j"] that len by simp
qed

lemma activateDot_in_range:
  assumes cover: "dots_cover s" and k: "0 \<le> k" "k < int (length (slides s))"
  shows "returned (activateDot (JInt k) s)"
proof -
  from k have "nat k < length (slides s)" by linarith
  with cover have "Some (show_nat (nat k)) \<in> set (map data_slide (dots s))"
    by (simp add: dots_cover_iff)
  then have "\<exists>d \<in> set (dots s). data_slide d = Some (num_str (JInt k))"
    using k by auto
  then have "query_first (\<lambda>d. data_slide d = Some (num_str (JInt k))) (dots s) \<noteq> None"
    by (simp add: query_first_None)
  then obtain j where "query_first (\<lambda>d. data_slide d = Some (num_str (JInt k))) (dots s) = Some j"
    by auto
  then show ?thesis by (simp add: activateDot_found)
qed

text \<open>
  Every caller runs \<^verbatim>\<open>goToSlide(curSlide)\<close> and \<^verbatim>\<open>activateDot(curSlide)\<close> after assigning
  \<^verbatim>\<open>curSlide\<close>.
\<close>

lemma move_frame:
  "curSlide (state_of (activateDot v (goToSlide v (s\<lparr>curSlide := v\<rparr>)))) = v"
  "length (slides (state_of (activateDot v (goToSlide v (s\<lparr>curSlide := v\<rparr>))))) = length (slides s)"
  "map data_slide (dots (state_of (activateDot v (goToSlide v (s\<lparr>curSlide := v\<rparr>))))) =
     map data_slide (dots s)"
  by (simp_all add: activateDot_frame goToSlide_frame)

lemma move_cover:
  "dots_cover (state_of (activateDot v (goToSlide v (s\<lparr>curSlide := v\<rparr>)))) = dots_cover s"
  by (intro dots_cover_cong move_frame)

lemma move_returned:
  assumes "dots_cover s" and "0 \<le> c" and "c < int (length (slides s))"
  shows "returned (activateDot (JInt c) (goToSlide (JInt c) (s\<lparr>curSlide := JInt c\<rparr>)))"
proof -
  let ?t = "goToSlide (JInt c) (s\<lparr>curSlide := JInt c\<rparr>)"
  have "dots_cover ?t = dots_cover s"
    by (intro dots_cover_cong) (simp_all add: goToSlide_frame)
  moreover have "length (slides ?t) = length (slides s)"
    by (simp add: goToSlide_frame)
  ultimately show ?thesis
    using assms by (simp add: activateDot_in_range)
qed

section \<open>Initialisation\<close>

lemma createDots_cover: "dots_cover (createDots s)"
  by (auto simp: dots_cover_iff createDots_def new_dot_def comp_def image_iff)

lemma init_ok:
  assumes "page_slides \<noteq> []"
  shows "returned (init page_slides page_dots)"
    and "curSlide (state_of (init page_slides page_dots)) = JInt 0"
    and "length (slides (state_of (init page_slides page_dots))) = length page_slides"
    and "dots_cover (state_of (init page_slides page_dots))"
proof -
  let ?s0 = "\<lparr>slides = page_slides, dots = page_dots, curSlide = JInt 0\<rparr>"
  let ?t = "createDots (goToSlide (JInt 0) ?s0)"
  have len: "length (slides ?t) = length page_slides"
    by (simp add: createDots_def goToSlide_def)
  have cur: "curSlide ?t = JInt 0"
    by (simp add: createDots_def goToSlide_def)
  have cover: "dots_cover ?t" by (rule createDots_cover)
  from assms len have pos: "(0::int) \<le> 0" "0 < int (length (slides ?t))" by simp_all
  show "returned (init page_slides page_dots)"
    unfolding init_def by (rule activateDot_in_range [OF cover pos])
  show "curSlide (state_of (init page_slides page_dots))  = JInt 0"
    unfolding init_def by (simp only: activateDot_frame cur)
  show l: "length (slides (state_of (init page_slides page_dots))) = length page_slides"
    unfolding init_def by (simp only: activateDot_frame len)
  have "dots_cover (state_of (activateDot (JInt 0) ?t)) = dots_cover ?t"
    by (rule dots_cover_cong) (simp_all only: activateDot_frame)
  with cover show "dots_cover (state_of (init page_slides page_dots))"
    unfolding init_def by simp
qed

lemma init_dots_created: "dots_created (state_of (init page_slides []))"
proof -
  let ?t = "createDots (goToSlide (JInt 0) \<lparr>slides = page_slides, dots = [], curSlide = JInt 0\<rparr>)"
  have "dots_created ?t"
    by (simp add: dots_created_def createDots_def goToSlide_def new_dot_def comp_def)
  moreover have "dots_created (state_of (activateDot (JInt 0) ?t)) = dots_created ?t"
    by (intro dots_created_cong) (simp_all only: activateDot_frame)
  ultimately show ?thesis by (simp add: init_def)
qed

lemma init_created_dot:
  assumes "i < length page_slides"
  shows "map data_slide (dots (state_of (init page_slides page_dots))) ! (length page_dots + i) =
      Some (show_nat i)"
proof -
  let ?t = "createDots (goToSlide (JInt 0) \<lparr>slides = page_slides, dots = page_dots, curSlide = JInt 0\<rparr>)"
  have "map data_slide (dots ?t) ! (length page_dots + i) = Some (show_nat i)"
    using assms
    by (simp add: createDots_def goToSlide_def new_dot_def comp_def nth_append
        del: upt_Suc)
  then show ?thesis by (simp only: init_def activateDot_frame)
qed

section \<open>Stepping with the controls\<close>

lemma nextSlide_unfold:
  assumes "curSlide s = JInt i"
  shows "nextSlide s =
     activateDot (JInt (if i = int (length (slides s)) - 1 then 0 else i + 1))
       (goToSlide (JInt (if i = int (length (slides s)) - 1 then 0 else i + 1))
         (s\<lparr>curSlide := JInt (if i = int (length (slides s)) - 1 then 0 else i + 1)\<rparr>))"
  using assms by (simp add: nextSlide_def maxSlide_def Let_def)

lemma prevSlide_unfold:
  assumes "curSlide s = JInt i"
  shows "prevSlide s =
     activateDot (JInt (if i = 0 then int (length (slides s)) - 1 else i - 1))
       (goToSlide (JInt (if i = 0 then int (length (slides s)) - 1 else i - 1))
         (s\<lparr>curSlide := JInt (if i = 0 then int (length (slides s)) - 1 else i - 1)\<rparr>))"
  using assms by (simp add: prevSlide_def maxSlide_def Let_def)

lemma next_index_mod:
  "0 \<le> i \<Longrightarrow> i < n \<Longrightarrow> (if i = n - 1 then 0 else i + 1) = (i + 1) mod (n::int)"
  by (auto simp: zmod_trivial_iff)

lemma prev_index_mod:
  "0 \<le> i \<Longrightarrow> i < n \<Longrightarrow> (if i = 0 then n - 1 else i - 1) = (i - 1) mod (n::int)"
  by (auto simp: zmod_trivial_iff zmod_minus1)

lemma control_frame:
  "length (slides (state_of (control_call c s))) = length (slides s)"
  "dots_cover (state_of (control_call c s)) = dots_cover s"
  by (cases c; simp add: nextSlide_def prevSlide_def Let_def move_frame move_cover)+

lemma control_dots_created: "dots_created (state_of (control_call c s)) = dots_created s"
proof (cases c)
  case Next
  show ?thesis
    unfolding Next control_call.simps nextSlide_def Let_def
    by (intro dots_created_cong move_frame)
next
  case Prev
  show ?thesis
    unfolding Prev control_call.simps prevSlide_def Let_def
    by (intro dots_created_cong move_frame)
qed

lemma control_index:
  assumes cur: "curSlide s = JInt i" and i: "0 \<le> i" "i < int (length (slides s))"
  shows "curSlide (state_of (control_call c s)) =
           JInt ((i + net_displacement [c]) mod int (length (slides s)))"
proof (cases c)
  case Next
  show ?thesis
    using next_index_mod [OF i]
    by (simp only: Next control_call.simps nextSlide_unfold [OF cur] move_frame) simp
next
  case Prev
  show ?thesis
    using prev_index_mod [OF i]
    by (simp only: Prev control_call.simps prevSlide_unfold [OF cur] move_frame) simp
qed

lemma control_returned:
  assumes cover: "dots_cover s" and cur: "curSlide s = JInt i"
    and i: "0 \<le> i" "i < int (length (slides s))"
  shows "returned (control_call c s)"
proof (cases c)
  case Next
  have "0 \<le> (if i = int (length (slides s)) - 1 then 0 else i + 1)"
    "(if i = int (length (slides s)) - 1 then 0 else i + 1) < int (length (slides s))"
    using i by auto
  from move_returned [OF cover this] show ?thesis
    by (simp only: Next control_call.simps nextSlide_unfold [OF cur])
next
  case Prev
  have "0 \<le> (if i = 0 then int (length (slides s)) - 1 else i - 1)"
    "(if i = 0 then int (length (slides s)) - 1 else i - 1) < int (length (slides s))"
    using i by auto
  from move_returned [OF cover this] show ?thesis
    by (simp only: Prev control_call.simps prevSlide_unfold [OF cur])
qed

lemma calls_index:
  assumes "curSlide s = JInt i" and "0 \<le> i" and "i < int (length (slides s))"
  shows "curSlide (after_calls cs s) = JInt ((i + net_displacement cs) mod int (length (slides s))) \<and>
         list_all (\<lambda>r. index_in_range (state_of r)) (calls cs s)"
  using assms
proof (induction cs arbitrary: s i)
  case Nil
  then show ?case by simp
next
  case (Cons c cs)
  let ?n = "int (length (slides s))"
  let ?s = "state_of (control_call c s)"
  let ?i = "(i + net_displacement [c]) mod ?n"
  have len: "length (slides ?s) = length (slides s)" by (rule control_frame)
  have cur: "curSlide ?s = JInt ?i" by (rule control_index [OF Cons.prems])
  have n: "0 < ?n" using Cons.prems by linarith
  then have i': "0 \<le> ?i" "?i < int (length (slides ?s))"
    by (simp_all add: len)
  from Cons.IH [OF cur i']
  have ih: "curSlide (after_calls cs ?s) = JInt ((?i + net_displacement cs) mod ?n)"
    "list_all (\<lambda>r. index_in_range (state_of r)) (calls cs ?s)"
    by (simp_all add: len)
  have rng: "index_in_range ?s"
    using i' by (simp add: index_in_range_def cur)
  have "(?i + net_displacement cs) mod ?n =
          (i + net_displacement [c] + net_displacement cs) mod ?n"
    by (rule mod_add_left_eq)
  also have "i + net_displacement [c] + net_displacement cs = i + net_displacement (c # cs)"
    by (cases c) simp_all
  finally have "(?i + net_displacement cs) mod ?n = (i + net_displacement (c # cs)) mod ?n" .
  with ih rng show ?case by simp
qed

lemma calls_returned:
  assumes "dots_cover s" and "curSlide s = JInt i" and "0 \<le> i" and "i < int (length (slides s))"
  shows "list_all returned (calls cs s)"
  using assms
proof (induction cs arbitrary: s i)
  case Nil
  then show ?case by simp
next
  case (Cons c cs)
  let ?n = "int (length (slides s))"
  let ?s = "state_of (control_call c s)"
  let ?i = "(i + net_displacement [c]) mod ?n"
  have len: "length (slides ?s) = length (slides s)" by (rule control_frame)
  have cur: "curSlide ?s = JInt ?i" by (rule control_index [OF Cons.prems(2-4)])
  have cover: "dots_cover ?s" using Cons.prems(1) by (simp add: control_frame)
  have n: "0 < ?n" using Cons.prems by linarith
  then have i': "0 \<le> ?i" "?i < int (length (slides ?s))"
    by (simp_all add: len)
  from Cons.IH [OF cover cur i'] control_returned [OF Cons.prems]
  show ?case by simp
qed

lemma net_displacement_replicate: "net_displacement (replicate n Next) = int n"
  by (induction n) simp_all

text \<open>
  C2. For a page with at least one slide, \<^verbatim>\<open>init\<close> returns with \<^verbatim>\<open>curSlide = 0\<close>, and for every
  sequence of calls of \<^verbatim>\<open>nextSlide\<close> and \<^verbatim>\<open>prevSlide\<close> from there, every call returns with
  \<^verbatim>\<open>curSlide\<close> in \<open>[0, N - 1]\<close>, and after the sequence \<^verbatim>\<open>curSlide\<close> is the number of calls
  of \<^verbatim>\<open>nextSlide\<close> minus the number of calls of \<^verbatim>\<open>prevSlide\<close>, modulo \<open>N\<close>. Every prefix of
  a sequence is a sequence, so the equation holds after every call.
\<close>

theorem next_previous_net_displacement:
  assumes "page_slides \<noteq> []"
  shows "returned (init page_slides page_dots) \<and>
         curSlide (state_of (init page_slides page_dots)) = JInt 0 \<and>
         list_all (\<lambda>r. returned r \<and> index_in_range (state_of r))
           (calls cs (state_of (init page_slides page_dots))) \<and>
         curSlide (after_calls cs (state_of (init page_slides page_dots))) =
           JInt (net_displacement cs mod int (length page_slides)) \<and>
         0 \<le> net_displacement cs mod int (length page_slides) \<and>
         net_displacement cs mod int (length page_slides) < int (length page_slides)"
proof -
  let ?s = "state_of (init page_slides page_dots)"
  note i = init_ok [OF assms, of page_dots]
  have rng: "(0::int) \<le> 0" "0 < int (length (slides ?s))"
    using assms by (simp_all add: i(3))
  from calls_index [OF i(2) rng, of cs] calls_returned [OF i(4) i(2) rng, of cs]
  have "list_all (\<lambda>r. returned r \<and> index_in_range (state_of r)) (calls cs ?s)"
    and "curSlide (after_calls cs ?s) = JInt (net_displacement cs mod int (length page_slides))"
    by (simp_all add: i(3) list_all_iff)
  with i(1,2) assms show ?thesis by simp
qed

theorem next_previous_net_displacement_witness:
  "[NoTransform, NoTransform, NoTransform] \<noteq> [] \<and>
   curSlide (after_calls [Next, Next, Prev, Next, Next, Next]
     (state_of (init [NoTransform, NoTransform, NoTransform] []))) = JInt 1 \<and>
   list_all (\<lambda>r. returned r \<and> index_in_range (state_of r))
     (calls [Next, Next, Prev, Next, Next, Next]
       (state_of (init [NoTransform, NoTransform, NoTransform] [])))"
  using next_previous_net_displacement
    [of "[NoTransform, NoTransform, NoTransform]" "[]" "[Next, Next, Prev, Next, Next, Next]"]
  by simp

text \<open>
  C3. From every state whose \<^verbatim>\<open>curSlide\<close> is an index \<open>i\<close> in \<open>[0, N - 1]\<close>, \<open>N\<close> calls of
  \<^verbatim>\<open>nextSlide\<close> bring \<^verbatim>\<open>curSlide\<close> back to \<open>i\<close>; where every slide has its dot, as after
  \<^verbatim>\<open>init\<close>, each of the calls returns.
\<close>

theorem next_full_cycle:
  assumes "curSlide s = JInt i" and "0 \<le> i" and "i < int (length (slides s))"
  shows "curSlide (after_calls (replicate (length (slides s)) Next) s) = JInt i \<and>
         (dots_cover s \<longrightarrow> list_all returned (calls (replicate (length (slides s)) Next) s))"
proof -
  from calls_index [OF assms, of "replicate (length (slides s)) Next"] assms(2,3)
  have "curSlide (after_calls (replicate (length (slides s)) Next) s) = JInt i"
    by (simp add: net_displacement_replicate)
  with calls_returned [OF _ assms] show ?thesis by simp
qed

theorem next_full_cycle_witness:
  "curSlide three_slides_second = JInt 1 \<and> (0::int) \<le> 1 \<and>
   1 < int (length (slides three_slides_second)) \<and> dots_cover three_slides_second \<and>
   curSlide (after_calls (replicate (length (slides three_slides_second)) Next)
     three_slides_second) = JInt 1 \<and>
   list_all returned (calls (replicate (length (slides three_slides_second)) Next)
     three_slides_second)"
proof -
  have h: "curSlide three_slides_second = JInt 1" "(0::int) \<le> 1"
    "1 < int (length (slides three_slides_second))" "dots_cover three_slides_second"
    by code_simp+
  from next_full_cycle [OF h(1-3)] h show ?thesis by simp
qed

text \<open>
  C5. For \<^verbatim>\<open>curSlide\<close> in \<open>[0, N - 1]\<close> the conditional of \<^verbatim>\<open>nextSlide\<close> yields
  \<open>(curSlide + 1) mod N\<close> and the conditional of \<^verbatim>\<open>prevSlide\<close> yields
  \<open>(curSlide - 1 + N) mod N\<close>; neither is stopped at an end of the range, and both calls
  return where every slide has its dot.
\<close>

theorem wrap_refines_modulo:
  assumes "curSlide s = JInt i" and "0 \<le> i" and "i < int (length (slides s))"
  shows "curSlide (state_of (nextSlide s)) = JInt (spec_next (int (length (slides s))) i) \<and>
         curSlide (state_of (prevSlide s)) = JInt (spec_previous (int (length (slides s))) i) \<and>
         (dots_cover s \<longrightarrow> returned (nextSlide s) \<and> returned (prevSlide s))"
proof -
  from control_index [OF assms, of Next] control_index [OF assms, of Prev]
  have "curSlide (state_of (nextSlide s)) = JInt (spec_next (int (length (slides s))) i)"
    and "curSlide (state_of (prevSlide s)) = JInt (spec_previous (int (length (slides s))) i)"
    by (simp_all add: spec_next_def spec_previous_def)
  moreover have "returned (nextSlide s)" "returned (prevSlide s)" if "dots_cover s"
    using control_returned [OF that assms, of Next] control_returned [OF that assms, of Prev]
    by simp_all
  ultimately show ?thesis by simp
qed

theorem wrap_refines_modulo_witness:
  "curSlide three_slides = JInt 0 \<and> (0::int) \<le> 0 \<and>
   0 < int (length (slides three_slides)) \<and> dots_cover three_slides \<and>
   curSlide (state_of (prevSlide three_slides)) = JInt 2 \<and>
   curSlide (state_of (nextSlide three_slides)) = JInt 1 \<and>
   returned (nextSlide three_slides) \<and> returned (prevSlide three_slides)"
proof -
  have h: "curSlide three_slides = JInt 0" "(0::int) \<le> 0"
    "0 < int (length (slides three_slides))" "dots_cover three_slides"
    by code_simp+
  have n: "int (length (slides three_slides)) = 3" by code_simp
  from wrap_refines_modulo [OF h(1-3)] h show ?thesis
    by (simp add: n spec_next_def spec_previous_def)
qed

section \<open>Going to a slide\<close>

lemma query_first_created:
  assumes created: "dots_created s" and i: "0 \<le> i" "i < int (length (slides s))"
  shows "query_first (\<lambda>d. data_slide d = Some (num_str (JInt i))) (dots s) = Some (nat i)"
proof -
  let ?P = "\<lambda>d. data_slide d = Some (num_str (JInt i))"
  from i have n: "nat i < length (slides s)" by linarith
  have str: "num_str (JInt i) = show_nat (nat i)" using i by simp
  have "?P (dots s ! nat i)" "dots s ! nat i \<in> set (dots s)"
    using dots_created_nth [OF created] n by (simp_all add: str del: num_str.simps)
  then have "query_first ?P (dots s) \<noteq> None"
    by (auto simp: query_first_None)
  then obtain j where j: "query_first ?P (dots s) = Some j" by auto
  from query_first_Some [OF j] have "j < length (dots s)" "?P (dots s ! j)" by simp_all
  with dots_created_nth [OF created] have "show_nat j = show_nat (nat i)"
    by (simp add: str del: num_str.simps)
  then have "j = nat i" by (rule show_nat_inj)
  with j show ?thesis by simp
qed

text \<open>
  C4. On a slider whose dots are the ones \<^verbatim>\<open>createDots\<close> made (\<open>init_dots_created\<close>,
  kept by every listener), going to an index \<open>i\<close> in \<open>[0, N - 1]\<close>, that is
  \<^verbatim>\<open>goToSlide(i)\<close> followed by \<^verbatim>\<open>activateDot(i)\<close>, returns, gives the slide at position \<open>p\<close>
  the offset \<open>100 * (p - i)\<close> percent, so that the slide at position \<open>i\<close> and no other has
  offset 0, and leaves the dot at position \<open>i\<close> and no other with the active class.
\<close>

theorem goTo_offsets_and_active_dot:
  assumes "dots_created s" and "0 \<le> i" and "i < int (length (slides s))"
  shows "returned (activateDot (JInt i) (goToSlide (JInt i) s)) \<and>
         (let s' = state_of (activateDot (JInt i) (goToSlide (JInt i) s))
          in length (slides s') = length (slides s) \<and>
             length (dots s') = length (slides s) \<and>
             (\<forall>p < length (slides s).
                slides s' ! p = TranslateXPct (100 * (int p - i)) \<and>
                (slides s' ! p = TranslateXPct 0 \<longleftrightarrow> int p = i) \<and>
                (dot_active (dots s' ! p) \<longleftrightarrow> int p = i)))"
proof -
  let ?t = "goToSlide (JInt i) s"
  let ?off = "map (dot_active_update (\<lambda>_. False)) (dots s)"
  have created: "dots_created ?t"
    using assms(1) by (simp add: dots_created_def goToSlide_frame)
  have len: "length (slides ?t) = length (slides s)" by (simp add: goToSlide_frame)
  have q: "query_first (\<lambda>d. data_slide d = Some (num_str (JInt i))) (dots ?t) = Some (nat i)"
    using query_first_created [OF created assms(2)] assms(3) by (simp add: len)
  have act: "activateDot (JInt i) ?t =
      Returned (?t\<lparr>dots := ?off[nat i := (dots s ! nat i)\<lparr>dot_active := True\<rparr>]\<rparr>)"
    using activateDot_found [OF q] by (simp add: goToSlide_frame)
  have dlen: "length (dots s) = length (slides s)"
    by (rule dots_created_nth(1) [OF assms(1)])
  have sl: "slides ?t ! p = TranslateXPct (100 * (int p - i))" if "p < length (slides s)" for p
    using that by (simp add: goToSlide_int)
  have dt: "dot_active ((?off[nat i := (dots s ! nat i)\<lparr>dot_active := True\<rparr>]) ! p) \<longleftrightarrow> int p = i"
    if "p < length (slides s)" for p
  proof (cases "p = nat i")
    case True
    with that assms(2) dlen show ?thesis by simp
  next
    case False
    with assms(2) have "int p \<noteq> i" by auto
    with False that dlen show ?thesis by simp
  qed
  show ?thesis
    using sl dt dlen by (simp add: act Let_def goToSlide_frame)
qed

theorem goTo_offsets_and_active_dot_witness:
  "dots_created three_slides \<and> (0::int) \<le> 1 \<and> 1 < int (length (slides three_slides)) \<and>
   returned (activateDot (JInt 1) (goToSlide (JInt 1) three_slides)) \<and>
   slides (state_of (activateDot (JInt 1) (goToSlide (JInt 1) three_slides))) ! 0 =
     TranslateXPct (- 100) \<and>
   dot_active (dots (state_of (activateDot (JInt 1) (goToSlide (JInt 1) three_slides))) ! 1)"
proof -
  have h: "dots_created three_slides" "(0::int) \<le> 1" "1 < int (length (slides three_slides))"
    by code_simp+
  have n: "length (slides three_slides) = 3" by code_simp
  from goTo_offsets_and_active_dot [OF h] h show ?thesis
    by (simp add: n Let_def)
qed

section \<open>Clicking a dot\<close>

lemma dot_click_dots_created:
  assumes "dot_click tgt s = Some r"
  shows "dots_created (state_of r) = dots_created s"
proof (cases tgt)
  case (Dot j)
  with assms obtain v where "r = activateDot v (goToSlide v (s\<lparr>curSlide := v\<rparr>))"
    by (auto simp: dot_click_def Let_def split: if_splits)
  then show ?thesis by (simp only:) (intro dots_created_cong move_frame)
next
  case NotADot
  with assms show ?thesis by (auto simp: dot_click_def)
qed



text \<open>
  A dot without \<^verbatim>\<open>data-slide\<close> gives \<^verbatim>\<open>NaN\<close>: \<^verbatim>\<open>curSlide\<close> becomes \<^verbatim>\<open>NaN\<close>, every dot loses
  the marker, and \<^verbatim>\<open>activateDot\<close> throws.
\<close>

lemma dot_click_missing_index_throws:
  "data_slide (dots four_slides_unlabelled ! 0) = None \<and>
   map dot_active (dots four_slides_unlabelled) = [False, True, False, False, False] \<and>
   map_option returned (dot_click (Dot 0) four_slides_unlabelled) = Some False \<and>
   map_option (curSlide \<circ> state_of) (dot_click (Dot 0) four_slides_unlabelled) = Some JNaN \<and>
   map_option (map dot_active \<circ> dots \<circ> state_of) (dot_click (Dot 0) four_slides_unlabelled) =
     Some [False, False, False, False, False]"
  by code_simp



text \<open>
  The conversion on other texts a dot may carry: \<^verbatim>\<open>"2.0"\<close> is the index 2, \<^verbatim>\<open>"2.5"\<close>
  lies between two slides, \<^verbatim>\<open>"1e1"\<close> and \<^verbatim>\<open>"0x10"\<close> are 10 and 16, \<^verbatim>\<open>"12px"\<close> and a lone sign
  are \<^verbatim>\<open>NaN\<close>.
\<close>

lemma js_Number_examples:
  "js_Number (Some ''2.0'') = JInt 2 \<and>
   js_Number (Some ''2.5'') = JDouble (5 / 2) \<and>
   js_Number (Some ''1e1'') = JInt 10 \<and>
   js_Number (Some ''0x10'') = JInt 16 \<and>
   js_Number (Some ''12px'') = JNaN \<and>
   js_Number (Some ''-'') = JNaN \<and>
   js_Number (Some '' 3 '') = JInt 3 \<and>
   js_Number (Some []) = JInt 0 \<and>
   js_Number (Some ''-Infinity'') = JNegInf \<and>
   num_str (JDouble (5 / 2)) = ''2.5'' \<and>
   map (\<lambda>p. slide_transform (JDouble (5 / 2)) p NoTransform) [0, 1, 2, 3] =
     [TranslateXPct (- 250), TranslateXPct (- 150), TranslateXPct (- 50), TranslateXPct 50]"
  by code_simp

section \<open>The observers' callbacks\<close>

lemma observer_configuration:
  "threshold sectionObserver_options = 15 / 100"
  "effective_margin sectionObserver_options = ''0px''"
  "threshold imgObserver_options = 0"
  "effective_margin imgObserver_options = ''200px''"
  by (simp_all add: sectionObserver_options_def imgObserver_options_def effective_margin_def)

lemma set_observe: "set (observe t obs) = insert t (set obs)"
  by (auto simp: observe_def)

lemma set_unobserve: "set (unobserve t obs) = set obs - {t}"
  by (auto simp: unobserve_def)

lemma arm_sections_effect:
  "section_hidden (arm_sections xs s) = section_hidden s \<union> set xs \<and>
   set (section_observed (arm_sections xs s)) = set (section_observed s) \<union> set xs \<and>
   reveal_log (arm_sections xs s) = reveal_log s"
  by (induction xs arbitrary: s) (auto simp: set_observe)

lemma arm_images_effect:
  "set (img_observed (arm_images xs s)) = set (img_observed s) \<union> set xs \<and>
   img_src (arm_images xs s) = img_src s \<and> img_lazy (arm_images xs s) = img_lazy s \<and>
   load_listeners (arm_images xs s) = load_listeners s \<and>
   img_data_src (arm_images xs s) = img_data_src s"
  by (induction xs arbitrary: s) (auto simp: set_observe)

lemma sections_hidden_when_armed:
  "set xs \<subseteq> section_hidden (arm_sections xs (sections_at_load h)) \<and>
   reveal_log (arm_sections xs (sections_at_load h)) = []"
  by (simp add: arm_sections_effect sections_at_load_def)

lemma revealSection_first_visible:
  assumes "isIntersecting e"
  shows "revealSection (e # rest) s =
     Returned (s\<lparr>section_hidden := section_hidden s - {target e},
                 reveal_log := reveal_log s @ [target e],
                 section_observed := unobserve (target e) (section_observed s)\<rparr>)"
  using assms by (simp add: revealSection_def)

lemma revealSection_first_not_visible:
  assumes "\<not> isIntersecting e"
  shows "revealSection (e # rest) s = Returned s"
  using assms by (simp add: revealSection_def)

lemma loadImg_first_visible:
  assumes "isIntersecting e"
  shows "loadImg (e # rest) s =
     Returned (s\<lparr>img_src := (img_src s)(target e :=
                   (case img_data_src s (target e) of None \<Rightarrow> ''undefined'' | Some u \<Rightarrow> u)),
                 load_listeners := (load_listeners s)(target e := Suc (load_listeners s (target e))),
                 img_observed := unobserve (target e) (img_observed s)\<rparr>)"
  using assms by (simp add: loadImg_def)

lemma loadImg_first_not_visible:
  assumes "\<not> isIntersecting e"
  shows "loadImg (e # rest) s = Returned s"
  using assms by (simp add: loadImg_def)

lemma loadImg_keeps_blur: "img_lazy (state_of (loadImg b s)) = img_lazy s"
  by (simp add: loadImg_def split: list.splits)

lemma load_event_removes_blur:
  assumes "isIntersecting e"
  shows "target e \<notin> img_lazy (img_load_event (target e) (state_of (loadImg (e # rest) s)))"
  using assms by (simp add: loadImg_first_visible img_load_event_def)

lemma load_event_without_listener: "load_listeners s t = 0 \<Longrightarrow> img_load_event t s = s"
  by (simp add: img_load_event_def)

text \<open>
  C10. Both callbacks read the first entry of the list only: a call with further
  entries does what the call with the first entry alone does, and leaves the target of
  a later entry, when it is not the first entry's target too, as it was: its classes,
  its \<^verbatim>\<open>src\<close>, its listeners, and whether it is observed, whatever the later entry's
  \<^verbatim>\<open>isIntersecting\<close>.
\<close>

theorem callbacks_read_first_entry_only:
  "revealSection (e # x # rest) s = revealSection [e] s \<and>
   loadImg (e # x # rest) im = loadImg [e] im \<and>
   (y \<in> set (x # rest) \<and> target y \<noteq> target e \<longrightarrow>
      (target y \<in> section_hidden (state_of (revealSection (e # x # rest) s))) =
        (target y \<in> section_hidden s) \<and>
      (target y \<in> set (section_observed (state_of (revealSection (e # x # rest) s)))) =
        (target y \<in> set (section_observed s)) \<and>
      count_list (reveal_log (state_of (revealSection (e # x # rest) s))) (target y) =
        count_list (reveal_log s) (target y) \<and>
      img_src (state_of (loadImg (e # x # rest) im)) (target y) = img_src im (target y) \<and>
      load_listeners (state_of (loadImg (e # x # rest) im)) (target y) =
        load_listeners im (target y) \<and>
      (target y \<in> img_lazy (state_of (loadImg (e # x # rest) im))) = (target y \<in> img_lazy im) \<and>
      (target y \<in> set (img_observed (state_of (loadImg (e # x # rest) im)))) =
        (target y \<in> set (img_observed im)))"
proof (cases "isIntersecting e")
  case True
  show ?thesis
    by (auto simp: revealSection_first_visible [OF True] loadImg_first_visible [OF True]
        set_unobserve)
next
  case False
  show ?thesis
    by (simp add: revealSection_first_not_visible [OF False] loadImg_first_not_visible [OF False])
qed

theorem callbacks_read_first_entry_only_witness:
  "\<lparr>target = 1, isIntersecting = True\<rparr> \<in> set [\<lparr>target = 1, isIntersecting = True\<rparr>] \<and>
   target \<lparr>target = 1, isIntersecting = True\<rparr> \<noteq> target \<lparr>target = 0, isIntersecting = True\<rparr> \<and>
   revealSection [\<lparr>target = 0, isIntersecting = True\<rparr>, \<lparr>target = 1, isIntersecting = True\<rparr>]
       two_sections =
     revealSection [\<lparr>target = 0, isIntersecting = True\<rparr>] two_sections \<and>
   (1 \<in> section_hidden (state_of (revealSection
       [\<lparr>target = 0, isIntersecting = True\<rparr>, \<lparr>target = 1, isIntersecting = True\<rparr>]
       two_sections))) = (1 \<in> section_hidden two_sections) \<and>
   img_src (state_of (loadImg
       [\<lparr>target = 0, isIntersecting = True\<rparr>, \<lparr>target = 1, isIntersecting = True\<rparr>]
       two_images)) 1 = img_src two_images 1"
proof -
  note t = callbacks_read_first_entry_only
    [of "\<lparr>target = 0, isIntersecting = True\<rparr>" "\<lparr>target = 1, isIntersecting = True\<rparr>" "[]"
        two_sections two_images "\<lparr>target = 1, isIntersecting = True\<rparr>"]
  from t [THEN conjunct2, THEN conjunct2]
  have "(1 \<in> section_hidden (state_of (revealSection
       [\<lparr>target = 0, isIntersecting = True\<rparr>, \<lparr>target = 1, isIntersecting = True\<rparr>]
       two_sections))) = (1 \<in> section_hidden two_sections)"
    and "img_src (state_of (loadImg
       [\<lparr>target = 0, isIntersecting = True\<rparr>, \<lparr>target = 1, isIntersecting = True\<rparr>]
       two_images)) 1 = img_src two_images 1"
    by simp_all
  with t [THEN conjunct1] show ?thesis
    by (intro conjI) simp_all
qed

subsection \<open>No element is settled twice\<close>

lemma revealSection_settled:
  assumes "settled_sections s" and "deliverable b (section_observed s)"
  shows "settled_sections (state_of (revealSection b s))"
proof -
  from assms(2) obtain e rest where b: "b = e # rest" and e: "target e \<in> set (section_observed s)"
    by (cases b) (auto simp: deliverable_def)
  show ?thesis
  proof (cases "isIntersecting e")
    case True
    from assms(1) e have "target e \<notin> set (reveal_log s)"
      by (auto simp: settled_sections_def)
    with assms(1) show ?thesis
      by (auto simp: b revealSection_first_visible [OF True] settled_sections_def set_unobserve)
  next
    case False
    with assms(1) show ?thesis by (simp add: b revealSection_first_not_visible)
  qed
qed

lemma loadImg_settled:
  assumes "settled_image s t" and "deliverable b (img_observed s)"
  shows "settled_image (state_of (loadImg b s)) t"
proof -
  from assms(2) obtain e rest where b: "b = e # rest" and e: "target e \<in> set (img_observed s)"
    by (cases b) (auto simp: deliverable_def)
  show ?thesis
  proof (cases "isIntersecting e")
    case True
    show ?thesis
      using assms(1) e
      by (cases "t = target e")
        (auto simp: b loadImg_first_visible [OF True] settled_image_def set_unobserve)
  next
    case False
    with assms(1) show ?thesis by (simp add: b loadImg_first_not_visible)
  qed
qed

lemma section_notifications_settled:
  "settled_sections s \<Longrightarrow> section_notifications bs s = Some s' \<Longrightarrow> settled_sections s'"
proof (induction bs arbitrary: s)
  case Nil
  then show ?case by simp
next
  case (Cons b bs)
  from Cons.prems(2) have d: "deliverable b (section_observed s)"
    and r: "section_notifications bs (state_of (revealSection b s)) = Some s'"
    by (simp_all split: if_splits)
  from Cons.IH [OF revealSection_settled [OF Cons.prems(1) d] r] show ?case .
qed

lemma image_notifications_settled:
  "settled_image s t \<Longrightarrow> image_notifications bs s = Some s' \<Longrightarrow> settled_image s' t"
proof (induction bs arbitrary: s)
  case Nil
  then show ?case by simp
next
  case (Cons b bs)
  from Cons.prems(2) have d: "deliverable b (img_observed s)"
    and r: "image_notifications bs (state_of (loadImg b s)) = Some s'"
    by (simp_all split: if_splits)
  from Cons.IH [OF loadImg_settled [OF Cons.prems(1) d] r] show ?case .
qed

lemma count_list_distinct: "distinct xs \<Longrightarrow> count_list xs t \<le> 1"
  by (induction xs) auto

lemma section_revealed_at_most_once:
  assumes "section_notifications bs (arm_sections xs (sections_at_load h)) = Some s'"
  shows "count_list (reveal_log s') t \<le> 1"
proof -
  have "settled_sections (arm_sections xs (sections_at_load h))"
    by (simp add: settled_sections_def arm_sections_effect sections_at_load_def)
  from section_notifications_settled [OF this assms] have "distinct (reveal_log s')"
    by (simp add: settled_sections_def)
  then show ?thesis by (rule count_list_distinct)
qed

lemma image_loaded_at_most_once:
  assumes "image_notifications bs (arm_images xs s) = Some s'"
    and "load_listeners s t = 0"
  shows "load_listeners s' t \<le> 1"
proof -
  have "settled_image (arm_images xs s) t"
    using assms(2) by (simp add: settled_image_def arm_images_effect)
  from image_notifications_settled [OF this assms(1)] show ?thesis
    by (simp add: settled_image_def)
qed

subsection \<open>Entries that are not first\<close>

text \<open>
  C6. Two sections are observed and hidden. The observer delivers one list with an entry
  for each: the first section is not intersecting, the second is. \<^verbatim>\<open>revealSection\<close>
  returns without a change: the second section, reported intersecting, keeps the class
  \<^verbatim>\<open>section--hidden\<close> and stays observed.
\<close>

theorem reveal_skips_later_entry:
  "deliverable [\<lparr>target = 0, isIntersecting = False\<rparr>, \<lparr>target = 1, isIntersecting = True\<rparr>]
     (section_observed two_sections) \<and>
   revealSection [\<lparr>target = 0, isIntersecting = False\<rparr>, \<lparr>target = 1, isIntersecting = True\<rparr>]
     two_sections = Returned two_sections \<and>
   1 \<in> section_hidden two_sections \<and>
   1 \<in> set (section_observed two_sections) \<and>
   reveal_log two_sections = []"
  by (simp add: two_sections_def sections_at_load_def deliverable_def observe_def
      revealSection_def)

text \<open>
  C7. The same with the entries of a notifier that counts a section as intersecting from
  the threshold 0.15 on: the second section is 20% visible, its entry is intersecting, and
  after the callback it is still hidden.
\<close>

theorem section_above_threshold_stays_hidden:
  "\<not> isIntersecting (section_entry 0 0) \<and>
   isIntersecting (section_entry 1 (20 / 100)) \<and>
   deliverable [section_entry 0 0, section_entry 1 (20 / 100)] (section_observed two_sections) \<and>
   section_notifications [[section_entry 0 0, section_entry 1 (20 / 100)]] two_sections =
     Some two_sections \<and>
   1 \<in> section_hidden two_sections"
  by (simp add: two_sections_def sections_at_load_def deliverable_def observe_def
      revealSection_def section_entry_def sectionObserver_options_def)

text \<open>Alone in its list, the entry at 10% reveals nothing and the entry at 20% reveals once.\<close>

lemma section_single_entry_scenario:
  "revealSection [section_entry 1 (10 / 100)] two_sections = Returned two_sections \<and>
   section_hidden (state_of (revealSection [section_entry 1 (20 / 100)] two_sections)) = {0} \<and>
   section_observed (state_of (revealSection [section_entry 1 (20 / 100)] two_sections)) = [0] \<and>
   reveal_log (state_of (revealSection [section_entry 1 (20 / 100)] two_sections)) = [1] \<and>
   \<not> deliverable [section_entry 1 (20 / 100)]
       (section_observed (state_of (revealSection [section_entry 1 (20 / 100)] two_sections)))"
  by (auto simp: two_sections_def sections_at_load_def deliverable_def observe_def unobserve_def
      revealSection_def section_entry_def sectionObserver_options_def)

text \<open>
  C8. Two images are observed, both near the viewport when the observer delivers its
  first list. \<^verbatim>\<open>loadImg\<close> loads the first; the second, reported intersecting, keeps its
  placeholder \<^verbatim>\<open>src\<close>, gets no \<^verbatim>\<open>load\<close> listener and stays observed.
\<close>

theorem loadImg_skips_later_entry:
  "deliverable [\<lparr>target = 0, isIntersecting = True\<rparr>, \<lparr>target = 1, isIntersecting = True\<rparr>]
     (img_observed two_images) \<and>
   img_src (state_of (loadImg
     [\<lparr>target = 0, isIntersecting = True\<rparr>, \<lparr>target = 1, isIntersecting = True\<rparr>] two_images)) 0 =
     ''large-0.jpg'' \<and>
   img_data_src two_images 1 = Some ''large-1.jpg'' \<and>
   img_src (state_of (loadImg
     [\<lparr>target = 0, isIntersecting = True\<rparr>, \<lparr>target = 1, isIntersecting = True\<rparr>] two_images)) 1 =
     ''small.jpg'' \<and>
   load_listeners (state_of (loadImg
     [\<lparr>target = 0, isIntersecting = True\<rparr>, \<lparr>target = 1, isIntersecting = True\<rparr>] two_images)) 1 = 0 \<and>
   img_observed (state_of (loadImg
     [\<lparr>target = 0, isIntersecting = True\<rparr>, \<lparr>target = 1, isIntersecting = True\<rparr>] two_images)) = [1]"
  by (simp add: two_images_def deliverable_def observe_def unobserve_def loadImg_def)

section \<open>Submitting the booking form\<close>

lemma booking_messages_distinct:
  "thanks_message \<noteq> failure_message \<and> failure_message \<noteq> network_message \<and>
   thanks_message \<noteq> network_message"
  by (simp add: thanks_message_def failure_message_def network_message_def)

text \<open>
  C9. The submit listener posts the form once and ends in one of three ways, each with
  its own message. On a response with \<^verbatim>\<open>res.ok\<close>: the lead event is sent if \<^verbatim>\<open>gtag\<close> is a
  function, the form is reset, the modal is closed, and the confirmation is shown. On a
  response without \<^verbatim>\<open>res.ok\<close>: the failure message is shown and nothing else changes. On a
  rejected \<^verbatim>\<open>fetch\<close>: the network message is shown and nothing else changes. In no case is
  there a second post.
\<close>

theorem booking_three_outcomes:
  "booking_submit (Response True) s =
     s\<lparr>posts := posts s @ [(FORMSPREE_URL, form_values s)],
       gtag_calls := (if gtag_defined s then gtag_calls s @ [lead_event] else gtag_calls s),
       form_values := form_defaults s,
       modal_hidden := True,
       overlay_hidden := True,
       alerts := alerts s @ [thanks_message]\<rparr> \<and>
   booking_submit (Response False) s =
     s\<lparr>posts := posts s @ [(FORMSPREE_URL, form_values s)],
       alerts := alerts s @ [failure_message]\<rparr> \<and>
   booking_submit Rejected s =
     s\<lparr>posts := posts s @ [(FORMSPREE_URL, form_values s)],
       alerts := alerts s @ [network_message]\<rparr> \<and>
   alerts (booking_submit r s) =
     alerts s @ [case r of Response ok \<Rightarrow> if ok then thanks_message else failure_message
                 | Rejected \<Rightarrow> network_message] \<and>
   posts (booking_submit r s) = posts s @ [(FORMSPREE_URL, form_values s)] \<and>
   thanks_message \<noteq> failure_message \<and> failure_message \<noteq> network_message \<and>
   thanks_message \<noteq> network_message"
proof -
  have "booking_submit (Response True) s =
     s\<lparr>posts := posts s @ [(FORMSPREE_URL, form_values s)],
       gtag_calls := (if gtag_defined s then gtag_calls s @ [lead_event] else gtag_calls s),
       form_values := form_defaults s,
       modal_hidden := True,
       overlay_hidden := True,
       alerts := alerts s @ [thanks_message]\<rparr>"
    by (simp add: booking_submit_def submit_request_def submit_response_def closeModal_def Let_def)
  moreover have "booking_submit (Response False) s =
     s\<lparr>posts := posts s @ [(FORMSPREE_URL, form_values s)],
       alerts := alerts s @ [failure_message]\<rparr>"
    by (simp add: booking_submit_def submit_request_def submit_response_def)
  moreover have "booking_submit Rejected s =
     s\<lparr>posts := posts s @ [(FORMSPREE_URL, form_values s)],
       alerts := alerts s @ [network_message]\<rparr>"
    by (simp add: booking_submit_def submit_request_def submit_response_def)
  moreover have "alerts (booking_submit r s) =
     alerts s @ [case r of Response ok \<Rightarrow> if ok then thanks_message else failure_message
                 | Rejected \<Rightarrow> network_message]"
    by (cases r)
      (simp_all add: booking_submit_def submit_request_def submit_response_def closeModal_def
        Let_def)
  moreover have "posts (booking_submit r s) = posts s @ [(FORMSPREE_URL, form_values s)]"
    by (cases r)
      (simp_all add: booking_submit_def submit_request_def submit_response_def closeModal_def
        Let_def)
  ultimately show ?thesis using booking_messages_distinct by simp
qed

theorem booking_three_outcomes_witness:
  "modal_hidden (booking_submit (Response True) open_booking) \<and>
   form_values (booking_submit (Response True) open_booking) = [(''name'', []), (''email'', [])] \<and>
   gtag_calls (booking_submit (Response True) open_booking) = [lead_event] \<and>
   alerts (booking_submit (Response True) open_booking) = [thanks_message] \<and>
   alerts (booking_submit (Response False) open_booking) = [failure_message] \<and>
   \<not> modal_hidden (booking_submit (Response False) open_booking) \<and>
   form_values (booking_submit Rejected open_booking) =
     [(''name'', ''Ada''), (''email'', ''ada@example.org'')] \<and>
   alerts (booking_submit Rejected open_booking) = [network_message] \<and>
   length (posts (booking_submit Rejected open_booking)) = 1"
proof -
  note t = booking_three_outcomes [of open_booking Rejected]
  have "booking_submit (Response True) open_booking =
      open_booking\<lparr>posts := posts open_booking @ [(FORMSPREE_URL, form_values open_booking)],
       gtag_calls := (if gtag_defined open_booking then gtag_calls open_booking @ [lead_event]
                      else gtag_calls open_booking),
       form_values := form_defaults open_booking,
       modal_hidden := True,
       overlay_hidden := True,
       alerts := alerts open_booking @ [thanks_message]\<rparr>"
    using t by (rule conjunct1)
  moreover have "booking_submit (Response False) open_booking =
     open_booking\<lparr>posts := posts open_booking @ [(FORMSPREE_URL, form_values open_booking)],
       alerts := alerts open_booking @ [failure_message]\<rparr>"
    using t by blast
  moreover have "booking_submit Rejected open_booking =
     open_booking\<lparr>posts := posts open_booking @ [(FORMSPREE_URL, form_values open_booking)],
       alerts := alerts open_booking @ [network_message]\<rparr>"
    using t by blast
  ultimately show ?thesis by (simp add: open_booking_def)
qed

end
